theory Spec2Isabelle
  imports Main "HOL-Library.Sublist"
begin

section \<open>Strings\<close>

text \<open>
  Model identifiers, cache keys and messages are JavaScript strings; they are modelled as
  \<^typ>\<open>string\<close>. The two string tests the sources use are \<^verbatim>\<open>m.startsWith(s)\<close> and
  \<^verbatim>\<open>m.includes(s)\<close> (contiguous substring).
\<close>

fun String_startsWith :: "string \<Rightarrow> string \<Rightarrow> bool" where
  "String_startsWith m [] = True"
| "String_startsWith [] (c # s) = False"
| "String_startsWith (a # m) (c # s) = (a = c \<and> String_startsWith m s)"

fun String_includes :: "string \<Rightarrow> string \<Rightarrow> bool" where
  "String_includes [] s = (s = [])"
| "String_includes (a # m) s = (String_startsWith (a # m) s \<or> String_includes m s)"

text \<open>\<^verbatim>\<open>xs.join(sep)\<close> of an array of strings.\<close>

fun Array_join :: "string list \<Rightarrow> string \<Rightarrow> string" where
  "Array_join [] sep = []"
| "Array_join [x] sep = x"
| "Array_join (x # y # xs) sep = x @ sep @ Array_join (y # xs) sep"

section \<open>Model Resolver: \<^verbatim>\<open>src/app/api/utils/get-available-models.ts\<close>\<close>

text \<open>
  \<^verbatim>\<open>getModelsToTry(apiKey)\<close> first awaits \<^verbatim>\<open>getAvailableModels(apiKey)\<close>, a network call
  that yields the list of live model identifiers (the empty list when the call fails).
  The model takes that list, \<open>availableModels\<close>, as its argument; everything after the
  \<^verbatim>\<open>await\<close> is the source's code, bucket by bucket.
\<close>

definition getModelsToTry :: "string list \<Rightarrow> string list" where
  "getModelsToTry availableModels =
    (if length availableModels > 0 then
       (let stableModels = filter (\<lambda>m.
              \<not> String_includes m ''preview'' \<and>
              \<not> String_includes m ''experimental'' \<and>
              \<not> String_includes m ''exp'' \<and>
              \<not> String_includes m ''beta'') availableModels;
            geminiFlash = filter (\<lambda>m.
              String_includes m ''flash'' \<and>
              String_startsWith m ''gemini'' \<and>
              (String_includes m ''2.5'' \<or> String_includes m ''2.0'' \<or>
               String_includes m ''1.5'' \<or> String_includes m ''1.0'')) stableModels;
            geminiPro = filter (\<lambda>m.
              String_includes m ''pro'' \<and>
              \<not> String_includes m ''flash'' \<and>
              String_startsWith m ''gemini'' \<and>
              (String_includes m ''2.5'' \<or> String_includes m ''2.0'' \<or>
               String_includes m ''1.5'' \<or> String_includes m ''1.0'')) stableModels;
            otherGemini = filter (\<lambda>m.
              String_startsWith m ''gemini'' \<and>
              \<not> String_includes m ''flash'' \<and>
              \<not> String_includes m ''pro'') stableModels;
            gemmaModels = filter (\<lambda>m. String_startsWith m ''gemma'') stableModels;
            otherStable = filter (\<lambda>m.
              \<not> String_startsWith m ''gemini'' \<and>
              \<not> String_startsWith m ''gemma'') stableModels;
            previewModels = filter (\<lambda>m.
              String_includes m ''preview'' \<or>
              String_includes m ''experimental'' \<or>
              String_includes m ''exp'') availableModels
        in geminiFlash @ geminiPro @ otherGemini @ otherStable @ gemmaModels @ previewModels)
     else
       [''gemini-1.5-flash'',
        ''gemini-1.5-flash-8b'',
        ''gemini-1.5-flash-latest'',
        ''gemini-1.5-pro'',
        ''gemini-1.0-pro'',
        ''gemini-pro''])"

text \<open>
  The two tags the ordering property speaks of: an identifier is preview-tagged when it
  contains one of the three markers of the \<^verbatim>\<open>previewModels\<close> filter, and stable when
  it contains none of them.
\<close>

definition isPreviewTagged :: "string \<Rightarrow> bool" where
  "isPreviewTagged m =
    (String_includes m ''preview'' \<or> String_includes m ''experimental'' \<or>
     String_includes m ''exp'')"

section \<open>Fallback Invoker: the three candidate loops\<close>

text \<open>
  What a \<^verbatim>\<open>catch (error: any)\<close> block of the routes reads of the error object:
  \<open>status\<close> is \<^verbatim>\<open>error.status\<close> in the two Gemini routes and
  \<^verbatim>\<open>error.response?.status\<close> in the speech route (\<open>None\<close> is \<^verbatim>\<open>undefined\<close>, for
  instance a network failure with no HTTP response); \<open>message\<close> is
  \<^verbatim>\<open>error.message\<close>, where the empty string stands for a missing message as well
  (the sources only use it as \<^verbatim>\<open>message || "..."\<close>, which treats both alike).
\<close>

record js_error =
  status :: "int option"
  message :: string

text \<open>
  One attempt of the awaited call inside \<^verbatim>\<open>try\<close>: it returns a value or throws.
\<close>

datatype 'r attempt = Returns 'r | Throws js_error

text \<open>
  The awaited call goes to an external service, whose answer is not a function of the
  model name alone (the same name can be overloaded now and answer later). The operation
  is therefore a function of the number of the call (from 0) and of the candidate:
  \<open>call i m\<close> is the outcome of the \<open>i\<close>-th call of the loop, made with candidate \<open>m\<close>.

  The loop variables of the sources are \<^verbatim>\<open>result\<close> (\<^verbatim>\<open>response\<close> in the speech route;
  \<^verbatim>\<open>undefined\<close> until an attempt returns) and \<^verbatim>\<open>lastError\<close> (\<^verbatim>\<open>null\<close> until an
  attempt throws). \<open>thrown\<close> records the \<^verbatim>\<open>throw error\<close> of the generate route's catch
  block, which leaves the loop for the route's outer \<^verbatim>\<open>catch\<close>. \<open>tried\<close> is the list of
  candidates the loop has called, in order (the generate and the speech route log each
  of them before the call). The generate route's \<^verbatim>\<open>successfulModel\<close>, assigned and never
  read, is left out.
\<close>

record 'r loop_state =
  result :: "'r option"
  lastError :: "js_error option"
  thrown :: "js_error option"
  tried :: "string list"

definition initial :: "'r loop_state" where
  "initial = \<lparr>result = None, lastError = None, thrown = None, tried = []\<rparr>"

text \<open>\<^verbatim>\<open>src/app/api/generate/route.ts\<close>, lines 90 to 116.\<close>

fun generate_loop ::
  "(nat \<Rightarrow> string \<Rightarrow> 'r attempt) \<Rightarrow> nat \<Rightarrow> string list \<Rightarrow> 'r loop_state \<Rightarrow> 'r loop_state" where
  "generate_loop call i [] st = st"
| "generate_loop call i (modelName # rest) st =
    (case call i modelName of
       Returns r \<Rightarrow> st\<lparr>result := Some r, tried := tried st @ [modelName]\<rparr>
     | Throws error \<Rightarrow>
         (let st' = st\<lparr>lastError := Some error, tried := tried st @ [modelName]\<rparr>
          in if status error = Some 503 \<or> status error = Some 404 \<or> status error = Some 400
             then generate_loop call (Suc i) rest st'
             else st'\<lparr>thrown := Some error\<rparr>))"

text \<open>\<^verbatim>\<open>src/app/api/describe/route.ts\<close>, lines 108 to 127.\<close>

fun describe_loop ::
  "(nat \<Rightarrow> string \<Rightarrow> 'r attempt) \<Rightarrow> nat \<Rightarrow> string list \<Rightarrow> 'r loop_state \<Rightarrow> 'r loop_state" where
  "describe_loop call i [] st = st"
| "describe_loop call i (modelName # rest) st =
    (case call i modelName of
       Returns r \<Rightarrow> st\<lparr>result := Some r, tried := tried st @ [modelName]\<rparr>
     | Throws error \<Rightarrow>
         (let st' = st\<lparr>lastError := Some error, tried := tried st @ [modelName]\<rparr>
          in if status error = Some 503 \<or> status error = Some 429 \<or>
                status error = Some 404 \<or> status error = Some 400
             then describe_loop call (Suc i) rest st'
             else st'))"

text \<open>
  The speech route (\<^verbatim>\<open>/api/tts\<close>), lines 93 to 131: a 401 breaks, a 404 continues, and
  so does every other failure.
\<close>

fun tts_loop ::
  "(nat \<Rightarrow> string \<Rightarrow> 'r attempt) \<Rightarrow> nat \<Rightarrow> string list \<Rightarrow> 'r loop_state \<Rightarrow> 'r loop_state" where
  "tts_loop call i [] st = st"
| "tts_loop call i (modelId # rest) st =
    (case call i modelId of
       Returns r \<Rightarrow> st\<lparr>result := Some r, tried := tried st @ [modelId]\<rparr>
     | Throws error \<Rightarrow>
         (let st' = st\<lparr>lastError := Some error, tried := tried st @ [modelId]\<rparr>
          in if status error = Some 401 then st'
             else if status error = Some 404 then tts_loop call (Suc i) rest st'
             else tts_loop call (Suc i) rest st'))"

definition modelsToTry :: "string list" where
  "modelsToTry =
    [''eleven_turbo_v2_5'', ''eleven_turbo_v2'', ''eleven_multilingual_v2'',
     ''eleven_monolingual_v1'']"

subsection \<open>After the loop\<close>

text \<open>
  A route answers a failure either with a JSON error body and an HTTP status
  (\<^verbatim>\<open>NextResponse.json({error, details, retryAfter}, {status})\<close>, whose three body
  fields are \<open>body_error\<close>, \<open>body_details\<close> and \<open>body_retryAfter\<close>) or by throwing to its
  outer \<^verbatim>\<open>catch\<close>.
\<close>

record error_response =
  http_status :: int
  body_error :: string
  body_details :: "string option"
  body_retryAfter :: "string option"

datatype failure = Respond error_response | Throw js_error

text \<open>\<^verbatim>\<open>new Error(msg)\<close>: an error object with a message and no status.\<close>

definition new_Error :: "string \<Rightarrow> js_error" where
  "new_Error msg = \<lparr>status = None, message = msg\<rparr>"

text \<open>\<^verbatim>\<open>lastError?.status\<close> and \<^verbatim>\<open>lastError?.message || fallback\<close>.\<close>

definition lastError_status :: "'r loop_state \<Rightarrow> int option" where
  "lastError_status st = (case lastError st of None \<Rightarrow> None | Some e \<Rightarrow> status e)"

definition lastError_message_or :: "'r loop_state \<Rightarrow> string \<Rightarrow> string" where
  "lastError_message_or st fallback =
    (case lastError st of
       None \<Rightarrow> fallback
     | Some e \<Rightarrow> if message e = [] then fallback else message e)"

text \<open>
  The texts of the terminal errors. The overloaded text is the same in the generate and
  the describe route; the two routes word the not-found text differently.
\<close>

definition overloaded_message :: "string list \<Rightarrow> string" where
  "overloaded_message modelNames =
    ''All models are currently overloaded. Please try again in a few moments. Tried: ''
      @ Array_join modelNames '', ''"

definition generate_no_models_message :: "string list \<Rightarrow> string" where
  \<open>generate_no_models_message modelNames =
    ''No available models found. Tried: '' @ Array_join modelNames '', '' @ ''.\<newline>\<newline>'' @
    ''This usually means the Generative AI API is not enabled in your Google Cloud project.\<newline>\<newline>'' @
    ''To fix:\<newline>'' @
    ''1. Go to: https://console.cloud.google.com/apis/library/generativelanguage.googleapis.com\<newline>'' @
    ''2. Select your project (projects/599646167290)\<newline>'' @
    ''3. Click "Enable" to enable the Generative AI API\<newline>'' @
    ''4. Wait a few minutes and try again\<newline>\<newline>'' @
    ''Or check available models at: http://localhost:3000/api/list-models''\<close>

definition describe_no_models_message :: "string list \<Rightarrow> string" where
  "describe_no_models_message modelNames =
    ''No available models found. Tried: '' @ Array_join modelNames '', ''
      @ ''. Your API key may not have access to these models.''"

definition describe_rate_limited :: error_response where
  "describe_rate_limited =
    \<lparr>http_status = 429,
     body_error = ''Rate limit exceeded. All models are currently rate-limited. Please try again in a few minutes.'',
     body_details = Some ''You've made too many requests. The free tier has rate limits. Please wait before trying again.'',
     body_retryAfter = Some ''2-5 minutes''\<rparr>"

definition tts_unauthorized :: error_response where
  "tts_unauthorized =
    \<lparr>http_status = 401,
     body_error = ''Authentication failed: Invalid ElevenLabs API key'',
     body_details = Some ''Please verify your ELEVENLABS_API_KEY is correct. You can get a new key from https://elevenlabs.io/'',
     body_retryAfter = None\<rparr>"

text \<open>\<^verbatim>\<open>src/app/api/generate/route.ts\<close>, lines 119 to 141.\<close>

definition generate_invoke ::
  "(nat \<Rightarrow> string \<Rightarrow> 'r attempt) \<Rightarrow> string list \<Rightarrow> failure + 'r" where
  "generate_invoke call modelNames =
    (let st = generate_loop call 0 modelNames initial in
     case thrown st of
       Some error \<Rightarrow> Inl (Throw error)
     | None \<Rightarrow>
        (case result st of
           Some r \<Rightarrow> Inr r
         | None \<Rightarrow>
            if lastError_status st = Some 503 then
              Inl (Throw (new_Error (overloaded_message modelNames)))
            else if lastError_status st = Some 404 then
              Inl (Throw (new_Error (generate_no_models_message modelNames)))
            else if lastError_status st = Some 401 then
              Inl (Throw (new_Error ''Invalid API key. Please check your GEMINI_API_KEY.''))
            else if lastError_status st = Some 429 then
              Inl (Throw (new_Error ''Rate limit exceeded. Please try again later.''))
            else
              Inl (Throw (new_Error
                (''API Error: '' @ lastError_message_or st ''Unknown error'')))))"

text \<open>\<^verbatim>\<open>src/app/api/describe/route.ts\<close>, lines 130 to 163.\<close>

definition describe_invoke ::
  "(nat \<Rightarrow> string \<Rightarrow> 'r attempt) \<Rightarrow> string list \<Rightarrow> failure + 'r" where
  "describe_invoke call modelNames =
    (let st = describe_loop call 0 modelNames initial in
     case result st of
       Some r \<Rightarrow> Inr r
     | None \<Rightarrow>
        if lastError_status st = Some 429 then
          Inl (Respond describe_rate_limited)
        else if lastError_status st = Some 503 then
          Inl (Respond \<lparr>http_status = 503,
            body_error = overloaded_message modelNames,
            body_details = None, body_retryAfter = None\<rparr>)
        else if lastError_status st = Some 404 then
          Inl (Respond \<lparr>http_status = 404,
            body_error = describe_no_models_message modelNames,
            body_details = None, body_retryAfter = None\<rparr>)
        else
          Inl (Respond \<lparr>http_status = 500,
            body_error = lastError_message_or st ''Unknown error occurred'',
            body_details = None, body_retryAfter = None\<rparr>))"

text \<open>The speech route, lines 134 to 145, over its fixed list \<^const>\<open>modelsToTry\<close>.\<close>

definition tts_after_loop :: "'r loop_state \<Rightarrow> failure + 'r" where
  "tts_after_loop st =
    (case result st of
       Some r \<Rightarrow> Inr r
     | None \<Rightarrow>
        if lastError_status st = Some 401 then Inl (Respond tts_unauthorized)
        else
          Inl (Throw (case lastError st of
                 Some e \<Rightarrow> e
               | None \<Rightarrow> new_Error ''Failed to generate speech with all models'')))"

definition tts_invoke :: "(nat \<Rightarrow> string \<Rightarrow> 'r attempt) \<Rightarrow> failure + 'r" where
  "tts_invoke call = tts_after_loop (tts_loop call 0 modelsToTry initial)"

subsection \<open>The loop the three routes share\<close>

text \<open>
  The condition under which each catch block reaches \<^verbatim>\<open>continue\<close>.
\<close>

definition generate_retryable :: "js_error \<Rightarrow> bool" where
  "generate_retryable e =
    (status e = Some 503 \<or> status e = Some 404 \<or> status e = Some 400)"

definition describe_retryable :: "js_error \<Rightarrow> bool" where
  "describe_retryable e =
    (status e = Some 503 \<or> status e = Some 429 \<or> status e = Some 404 \<or>
     status e = Some 400)"

definition tts_retryable :: "js_error \<Rightarrow> bool" where
  "tts_retryable e = (status e \<noteq> Some 401)"

text \<open>
  The Fallback Invoker as the specification describes it, over a classification
  \<open>retryable\<close> of failures: a success stops the loop, a retryable failure goes on to the
  next candidate, any other failure stops the loop (\<open>rethrow\<close> tells whether it leaves
  by \<^verbatim>\<open>throw\<close> or by \<^verbatim>\<open>break\<close>). The three loops above are shown to be instances
  of it, so that facts about it are proved once.
\<close>

fun fallback_loop ::
  "(js_error \<Rightarrow> bool) \<Rightarrow> bool \<Rightarrow> (nat \<Rightarrow> string \<Rightarrow> 'r attempt) \<Rightarrow> nat \<Rightarrow> string list
    \<Rightarrow> 'r loop_state \<Rightarrow> 'r loop_state" where
  "fallback_loop retryable rethrow call i [] st = st"
| "fallback_loop retryable rethrow call i (m # rest) st =
    (case call i m of
       Returns r \<Rightarrow> st\<lparr>result := Some r, tried := tried st @ [m]\<rparr>
     | Throws e \<Rightarrow>
         (let st' = st\<lparr>lastError := Some e, tried := tried st @ [m]\<rparr>
          in if retryable e then fallback_loop retryable rethrow call (Suc i) rest st'
             else if rethrow then st'\<lparr>thrown := Some e\<rparr>
             else st'))"

text \<open>
  \<open>all_fail retryable call i ms\<close>: the calls number \<open>i\<close>, \<open>i + 1\<close>, ... made with the
  candidates \<open>ms\<close> in turn all throw, each with a failure that \<open>retryable\<close> accepts.
\<close>

fun all_fail ::
  "(js_error \<Rightarrow> bool) \<Rightarrow> (nat \<Rightarrow> string \<Rightarrow> 'r attempt) \<Rightarrow> nat \<Rightarrow> string list \<Rightarrow> bool" where
  "all_fail retryable call i [] = True"
| "all_fail retryable call i (m # ms) =
    ((case call i m of Returns r \<Rightarrow> False | Throws e \<Rightarrow> retryable e)
     \<and> all_fail retryable call (Suc i) ms)"

text \<open>
  A scripted service, to run the loops on concrete inputs: the \<open>i\<close>-th call is answered by
  the \<open>i\<close>-th entry of the script whatever the candidate, and a call beyond the script
  fails without an HTTP status.
\<close>

definition scripted :: "'r attempt list \<Rightarrow> nat \<Rightarrow> string \<Rightarrow> 'r attempt" where
  "scripted script i m =
    (if i < length script then script ! i
     else Throws \<lparr>status = None, message = ''no answer''\<rparr>)"

section \<open>Local Response Cache: \<^verbatim>\<open>src/hooks/useExerciseImage.ts\<close>\<close>

record CachedImage =
  url :: string
  timestamp :: int
  version :: "string option"

definition CACHE_PREFIX :: string where
  "CACHE_PREFIX = ''exercise_image_''"

definition CACHE_VERSION :: string where
  "CACHE_VERSION = ''v2''"

definition CACHE_EXPIRY_DAYS :: int where
  "CACHE_EXPIRY_DAYS = 7"

definition CACHE_EXPIRY_MS :: int where
  "CACHE_EXPIRY_MS = CACHE_EXPIRY_DAYS * 24 * 60 * 60 * 1000"

text \<open>
  The browser as the three cache functions see it: whether \<^verbatim>\<open>window\<close> is defined (it is
  not while the page renders on the server), the texts \<^verbatim>\<open>localStorage\<close> holds under
  each key, and whether the store is out of quota, in which case \<^verbatim>\<open>setItem\<close> throws.
  Times are milliseconds since the epoch, as \<^verbatim>\<open>Date.now()\<close> returns them: integers,
  on which the subtraction and comparison of the source are exact.
\<close>

record Browser =
  window_defined :: bool
  localStorage :: "string \<rightharpoonup> string"
  quota_exceeded :: bool

definition removeItem :: "Browser \<Rightarrow> string \<Rightarrow> Browser" where
  "removeItem b k = b\<lparr>localStorage := (localStorage b)(k := None)\<rparr>"

definition setItem :: "Browser \<Rightarrow> string \<Rightarrow> string \<Rightarrow> Browser option" where
  "setItem b k v =
    (if quota_exceeded b then None
     else Some (b\<lparr>localStorage := (localStorage b)(k \<mapsto> v)\<rparr>))"

definition clearCachedImage :: "Browser \<Rightarrow> string \<Rightarrow> Browser" where
  "clearCachedImage b name =
    (if \<not> window_defined b then b else removeItem b (CACHE_PREFIX @ name))"

text \<open>
  \<^verbatim>\<open>JSON.parse\<close> and \<^verbatim>\<open>JSON.stringify\<close> belong to the platform, not to the repository:
  the two functions take them as parameters. \<open>JSON_parse text = None\<close> is the \<^verbatim>\<open>try\<close>
  block throwing before it has a version to test: \<^verbatim>\<open>JSON.parse\<close> throws on a text that
  is not JSON, or it returns \<^verbatim>\<open>null\<close> and reading \<^verbatim>\<open>data.version\<close> throws; the
  \<^verbatim>\<open>catch\<close> of \<^verbatim>\<open>getCachedImage\<close> turns both into \<^verbatim>\<open>null\<close>. Otherwise the value is
  read as the source declares it, \<^verbatim>\<open>const data: CachedImage\<close>, with \<open>version\<close> optional:
  a JSON value of another shape (\<^verbatim>\<open>{}\<close>, \<^verbatim>\<open>[]\<close>, \<^verbatim>\<open>123\<close>) has no \<^verbatim>\<open>version\<close>
  property and reads as \<open>version = None\<close>, and the source reads no other field of a
  value whose version is not the current one. The functions return the browser they leave
  behind.
\<close>

definition getCachedImage ::
  "(string \<Rightarrow> CachedImage option) \<Rightarrow> Browser \<Rightarrow> int \<Rightarrow> string \<Rightarrow> string option \<times> Browser" where
  "getCachedImage JSON_parse b now name =
    (if \<not> window_defined b then (None, b)
     else
       (case localStorage b (CACHE_PREFIX @ name) of
          None \<Rightarrow> (None, b)
        | Some cached \<Rightarrow>
            if cached = [] then (None, b)
            else
              (case JSON_parse cached of
                 None \<Rightarrow> (None, b)
               | Some data \<Rightarrow>
                   if version data \<noteq> Some CACHE_VERSION then
                     (None, removeItem b (CACHE_PREFIX @ name))
                   else if now - timestamp data > CACHE_EXPIRY_MS then
                     (None, removeItem b (CACHE_PREFIX @ name))
                   else (Some (url data), b))))"

definition setCachedImage ::
  "(CachedImage \<Rightarrow> string) \<Rightarrow> Browser \<Rightarrow> int \<Rightarrow> string \<Rightarrow> string \<Rightarrow> Browser" where
  "setCachedImage JSON_stringify b now name u =
    (if \<not> window_defined b then b
     else
       (let data = \<lparr>url = u, timestamp = now, version = Some CACHE_VERSION\<rparr>
        in case setItem b (CACHE_PREFIX @ name) (JSON_stringify data) of
             Some b' \<Rightarrow> b'
           | None \<Rightarrow> b))"

text \<open>
  A table of JSON texts and the values they stand for, to run the cache on concrete
  inputs: \<open>parse_table\<close> parses the texts of the table and throws on every other text,
  \<open>stringify_table\<close> writes a value as the text the table gives it. The last text of
  the table, \<^verbatim>\<open>{}\<close>, has none of the three fields; a read tests its version and
  reads nothing else of it, so the \<open>url\<close> and \<open>timestamp\<close> the table gives it are never
  looked at.
\<close>

definition parse_table :: "(string \<times> CachedImage) list \<Rightarrow> string \<Rightarrow> CachedImage option" where
  "parse_table tbl text = map_of tbl text"

definition stringify_table :: "(string \<times> CachedImage) list \<Rightarrow> CachedImage \<Rightarrow> string" where
  "stringify_table tbl data =
    (case find (\<lambda>(text, d). d = data) tbl of
       Some (text, d) \<Rightarrow> text
     | None \<Rightarrow> ''null'')"

definition json_push_ups :: string where
  \<open>json_push_ups =
    ''{"url":"https://img.example/push-ups.png","timestamp":1000,"version":"v2"}''\<close>

definition json_pull_ups :: string where
  \<open>json_pull_ups =
    ''{"url":"https://img.example/pull-ups.png","timestamp":2000,"version":"v2"}''\<close>

definition json_squats :: string where
  \<open>json_squats =
    ''{"url":"https://img.example/squats.png","timestamp":1000,"version":"v1"}''\<close>

definition json_plank :: string where
  \<open>json_plank = ''{"url":"https://img.example/plank.png","timestamp":1000}''\<close>

definition json_table :: "(string \<times> CachedImage) list" where
  "json_table =
    [(json_push_ups,
      \<lparr>url = ''https://img.example/push-ups.png'', timestamp = 1000, version = Some ''v2''\<rparr>),
     (json_pull_ups,
      \<lparr>url = ''https://img.example/pull-ups.png'', timestamp = 2000, version = Some ''v2''\<rparr>),
     (json_squats,
      \<lparr>url = ''https://img.example/squats.png'', timestamp = 1000, version = Some ''v1''\<rparr>),
     (json_plank,
      \<lparr>url = ''https://img.example/plank.png'', timestamp = 1000, version = None\<rparr>),
     (''{}'', \<lparr>url = [], timestamp = 0, version = None\<rparr>)]"

text \<open>
  A browser whose store holds a current entry, an entry of the previous version, an entry
  written before versions existed, a text that is not JSON, and the JSON text
  \<^verbatim>\<open>{}\<close>, which is no cache entry.
\<close>

definition sample_browser :: Browser where
  "sample_browser =
    \<lparr>window_defined = True,
     localStorage = map_of
       [(CACHE_PREFIX @ ''push-ups'', json_push_ups),
        (CACHE_PREFIX @ ''squats'', json_squats),
        (CACHE_PREFIX @ ''plank'', json_plank),
        (CACHE_PREFIX @ ''lunges'', ''{url: https://img.exam''),
        (CACHE_PREFIX @ ''burpees'', ''{}'')],
     quota_exceeded = False\<rparr>"

section \<open>Facts about the string tests\<close>

lemma String_startsWith_prefix: "String_startsWith m s = prefix s m"
  by (induction m s rule: String_startsWith.induct) auto

lemma String_includes_sublist: "String_includes m s = sublist s m"
proof (induction m)
  case Nil
  then show ?case by simp
next
  case (Cons a m)
  then show ?case
    by (cases s) (simp_all add: String_startsWith_prefix sublist_Cons_right)
qed

section \<open>The Model Resolver\<close>

lemma getModelsToTry_split:
  assumes "availableModels \<noteq> []"
  shows "\<exists>stable. getModelsToTry availableModels = stable @ filter isPreviewTagged availableModels
           \<and> (\<forall>m \<in> set stable. m \<in> set availableModels \<and> \<not> isPreviewTagged m
                 \<and> \<not> String_includes m ''beta'')"
proof -
  have pv: "filter (\<lambda>m. String_includes m ''preview'' \<or> String_includes m ''experimental'' \<or>
               String_includes m ''exp'') availableModels = filter isPreviewTagged availableModels"
    by (rule filter_cong) (simp_all add: isPreviewTagged_def)
  from assms have "0 < length availableModels" by simp
  then show ?thesis
    unfolding getModelsToTry_def Let_def pv
    by (intro exI conjI) (simp only: if_True append_assoc [symmetric], auto simp: isPreviewTagged_def)
qed

lemma getModelsToTry_subset:
  assumes "availableModels \<noteq> []"
  shows "set (getModelsToTry availableModels) \<subseteq> set availableModels"
  using getModelsToTry_split [OF assms] by auto

text \<open>
  Claim C2. For every non-empty list of live identifiers the resolver should return a
  non-empty list of identifiers taken from the input. The second half holds
  (\<open>getModelsToTry_subset\<close>). The first does not: the live list that holds only
  \<^verbatim>\<open>gemini-pro\<close>, an identifier of the resolver's own static list, falls into no bucket
  (it has no version number for \<^verbatim>\<open>geminiPro\<close> and contains \<^verbatim>\<open>pro\<close>, which
  \<^verbatim>\<open>otherGemini\<close> refuses), and the result is empty.
\<close>

theorem resolver_empty_for_gemini_pro: "getModelsToTry [''gemini-pro''] = []"
  by (simp add: getModelsToTry_def)

text \<open>
  Claim C7. For every non-empty list of live identifiers, no preview-tagged identifier of
  the resolver's output (one containing \<^verbatim>\<open>preview\<close>, \<^verbatim>\<open>experimental\<close> or
  \<^verbatim>\<open>exp\<close>) stands before a stable one (one containing none of the three): whenever
  position \<open>i\<close> is before position \<open>j\<close>, it is not the case that position \<open>i\<close> is
  preview-tagged and position \<open>j\<close> is stable.
\<close>

theorem preview_never_precedes_stable:
  assumes "availableModels \<noteq> []"
    and "i < j" and "j < length (getModelsToTry availableModels)"
  shows "\<not> (isPreviewTagged (getModelsToTry availableModels ! i)
            \<and> \<not> isPreviewTagged (getModelsToTry availableModels ! j))"
proof
  assume a: "isPreviewTagged (getModelsToTry availableModels ! i)
            \<and> \<not> isPreviewTagged (getModelsToTry availableModels ! j)"
  from getModelsToTry_split [OF assms(1)] obtain stable where
    out: "getModelsToTry availableModels = stable @ filter isPreviewTagged availableModels"
    and st: "\<forall>m \<in> set stable. \<not> isPreviewTagged m" by blast
  have "\<not> i < length stable"
  proof
    assume "i < length stable"
    then have "getModelsToTry availableModels ! i \<in> set stable"
      by (simp add: out nth_append)
    with st a show False by blast
  qed
  with assms(2) have "\<not> j < length stable" by simp
  with assms(3) have "j - length stable < length (filter isPreviewTagged availableModels)"
    and "getModelsToTry availableModels ! j = filter isPreviewTagged availableModels ! (j - length stable)"
    by (simp_all add: out nth_append)
  then have "getModelsToTry availableModels ! j \<in> set (filter isPreviewTagged availableModels)"
    by (metis nth_mem)
  with a show False by simp
qed

theorem preview_never_precedes_stable_witness:
  "[''gemini-2.0-flash-exp'', ''gemini-1.5-flash''] \<noteq> [] \<and> (0::nat) < 1
   \<and> 1 < length (getModelsToTry [''gemini-2.0-flash-exp'', ''gemini-1.5-flash''])
   \<and> getModelsToTry [''gemini-2.0-flash-exp'', ''gemini-1.5-flash'']
       = [''gemini-1.5-flash'', ''gemini-2.0-flash-exp'']
   \<and> \<not> (isPreviewTagged (getModelsToTry [''gemini-2.0-flash-exp'', ''gemini-1.5-flash''] ! 0)
         \<and> \<not> isPreviewTagged (getModelsToTry [''gemini-2.0-flash-exp'', ''gemini-1.5-flash''] ! 1))"
proof -
  have out: "getModelsToTry [''gemini-2.0-flash-exp'', ''gemini-1.5-flash'']
       = [''gemini-1.5-flash'', ''gemini-2.0-flash-exp'']"
    by (simp add: getModelsToTry_def)
  have h1: "[''gemini-2.0-flash-exp'', ''gemini-1.5-flash''] \<noteq> []" by simp
  have h2: "(0::nat) < 1" by simp
  have h3: "1 < length (getModelsToTry [''gemini-2.0-flash-exp'', ''gemini-1.5-flash''])"
    by (simp add: out)
  from preview_never_precedes_stable [OF h1 h2 h3] h1 h2 h3 out show ?thesis by blast
qed

text \<open>
  Claim C9. For every non-empty list of live identifiers, an identifier of the list that
  contains \<^verbatim>\<open>beta\<close> and none of \<^verbatim>\<open>preview\<close>, \<^verbatim>\<open>experimental\<close>, \<^verbatim>\<open>exp\<close> is not in
  the resolver's output: the stable filter refuses it and the preview filter does not
  take it back.
\<close>

theorem beta_identifiers_dropped:
  assumes "availableModels \<noteq> []"
    and "m \<in> set availableModels"
    and "String_includes m ''beta''"
    and "\<not> String_includes m ''preview''"
    and "\<not> String_includes m ''experimental''"
    and "\<not> String_includes m ''exp''"
  shows "m \<notin> set (getModelsToTry availableModels)"
proof
  assume "m \<in> set (getModelsToTry availableModels)"
  with getModelsToTry_split [OF assms(1)] assms(3)
  have "isPreviewTagged m" by auto
  with assms(4,5,6) show False by (simp add: isPreviewTagged_def)
qed

theorem beta_identifiers_dropped_witness:
  "[''gemini-1.5-flash'', ''gemini-2.0-beta''] \<noteq> []
   \<and> ''gemini-2.0-beta'' \<in> set [''gemini-1.5-flash'', ''gemini-2.0-beta'']
   \<and> String_includes ''gemini-2.0-beta'' ''beta''
   \<and> \<not> String_includes ''gemini-2.0-beta'' ''preview''
   \<and> \<not> String_includes ''gemini-2.0-beta'' ''experimental''
   \<and> \<not> String_includes ''gemini-2.0-beta'' ''exp''
   \<and> ''gemini-2.0-beta'' \<notin> set (getModelsToTry [''gemini-1.5-flash'', ''gemini-2.0-beta''])"
proof -
  have h1: "[''gemini-1.5-flash'', ''gemini-2.0-beta''] \<noteq> []" by simp
  have h2: "''gemini-2.0-beta'' \<in> set [''gemini-1.5-flash'', ''gemini-2.0-beta'']" by simp
  have h3: "String_includes ''gemini-2.0-beta'' ''beta''" by simp
  have h4: "\<not> String_includes ''gemini-2.0-beta'' ''preview''" by simp
  have h5: "\<not> String_includes ''gemini-2.0-beta'' ''experimental''" by simp
  have h6: "\<not> String_includes ''gemini-2.0-beta'' ''exp''" by simp
  from beta_identifiers_dropped [OF h1 h2 h3 h4 h5 h6] h1 h2 h3 h4 h5 h6 show ?thesis by blast
qed

section \<open>The Fallback Invoker\<close>

text \<open>The three loops of the routes are instances of the shared loop.\<close>

lemma generate_loop_fallback:
  "generate_loop call i cs st = fallback_loop generate_retryable True call i cs st"
  by (induction cs arbitrary: i st)
     (simp_all add: generate_retryable_def Let_def split: attempt.splits)

lemma describe_loop_fallback:
  "describe_loop call i cs st = fallback_loop describe_retryable False call i cs st"
  by (induction cs arbitrary: i st)
     (simp_all add: describe_retryable_def Let_def split: attempt.splits)

lemma tts_loop_fallback:
  "tts_loop call i cs st = fallback_loop tts_retryable False call i cs st"
  by (induction cs arbitrary: i st)
     (simp_all add: tts_retryable_def Let_def split: attempt.splits)

lemma fallback_loop_all_fail:
  assumes "all_fail R call i pre"
  shows "\<exists>st'. fallback_loop R rt call i (pre @ cs) st
                 = fallback_loop R rt call (i + length pre) cs st'
           \<and> tried st' = tried st @ pre
           \<and> result st' = result st
           \<and> thrown st' = thrown st
           \<and> (pre = [] \<longrightarrow> lastError st' = lastError st)
           \<and> (pre \<noteq> [] \<longrightarrow>
                (\<exists>e. call (i + length pre - 1) (last pre) = Throws e \<and> R e
                      \<and> lastError st' = Some e))"
  using assms
proof (induction pre arbitrary: i st)
  case Nil
  show ?case by (rule exI [of _ st]) simp
next
  case (Cons m ms)
  from Cons.prems obtain e where e: "call i m = Throws e" "R e"
    and rest: "all_fail R call (Suc i) ms"
    by (auto split: attempt.splits)
  let ?st1 = "st\<lparr>lastError := Some e, tried := tried st @ [m]\<rparr>"
  from Cons.IH [OF rest, of ?st1] obtain st' where
    st': "fallback_loop R rt call (Suc i) (ms @ cs) ?st1
            = fallback_loop R rt call (Suc i + length ms) cs st'"
      "tried st' = tried ?st1 @ ms" "result st' = result ?st1" "thrown st' = thrown ?st1"
      "ms = [] \<longrightarrow> lastError st' = lastError ?st1"
      "ms \<noteq> [] \<longrightarrow> (\<exists>e. call (Suc i + length ms - 1) (last ms) = Throws e \<and> R e
                      \<and> lastError st' = Some e)"
    by blast
  have step: "fallback_loop R rt call i ((m # ms) @ cs) st
          = fallback_loop R rt call (i + length (m # ms)) cs st'"
    using e st'(1) by (simp add: Let_def)
  show ?case
  proof (intro exI [of _ st'] conjI impI)
    show "fallback_loop R rt call i ((m # ms) @ cs) st
          = fallback_loop R rt call (i + length (m # ms)) cs st'" by (rule step)
    show "tried st' = tried st @ m # ms" using st'(2) by simp
    show "result st' = result st" using st'(3) by simp
    show "thrown st' = thrown st" using st'(4) by simp
    show "lastError st' = lastError st" if "m # ms = []" using that by simp
    show "\<exists>e. call (i + length (m # ms) - 1) (last (m # ms)) = Throws e \<and> R e
              \<and> lastError st' = Some e"
    proof (cases "ms = []")
      case True
      with st'(5) e show ?thesis by simp
    next
      case False
      with st'(6) show ?thesis by simp
    qed
  qed
qed

text \<open>The candidates a loop has called are a prefix of its candidate list.\<close>

lemma fallback_loop_tried_prefix:
  "prefix (tried st) (tried (fallback_loop R rt call i cs st))"
proof (induction cs arbitrary: i st)
  case Nil
  show ?case by simp
next
  case (Cons m ms)
  show ?case
  proof (cases "call i m")
    case (Returns r)
    then show ?thesis by simp
  next
    case (Throws e)
    let ?st1 = "st\<lparr>lastError := Some e, tried := tried st @ [m]\<rparr>"
    have "prefix (tried st) (tried ?st1)" by simp
    also have "prefix (tried ?st1) (tried (fallback_loop R rt call (Suc i) ms ?st1))"
      by (rule Cons.IH)
    finally show ?thesis using Throws by (simp add: Let_def)
  qed
qed

lemma fallback_loop_tried_candidates:
  "\<exists>n. tried (fallback_loop R rt call i cs st) = tried st @ take n cs"
proof (induction cs arbitrary: i st)
  case Nil
  show ?case by simp
next
  case (Cons m ms)
  show ?case
  proof (cases "call i m")
    case (Returns r)
    then have "tried (fallback_loop R rt call i (m # ms) st) = tried st @ take 1 (m # ms)"
      by simp
    then show ?thesis by blast
  next
    case (Throws e)
    let ?st1 = "st\<lparr>lastError := Some e, tried := tried st @ [m]\<rparr>"
    from Cons.IH [of "Suc i" ?st1] obtain n where
      n: "tried (fallback_loop R rt call (Suc i) ms ?st1) = tried ?st1 @ take n ms" by blast
    show ?thesis
    proof (cases "R e")
      case True
      with Throws n have "tried (fallback_loop R rt call i (m # ms) st) = tried st @ take (Suc n) (m # ms)"
        by (simp add: Let_def)
      then show ?thesis by blast
    next
      case False
      with Throws have "tried (fallback_loop R rt call i (m # ms) st) = tried st @ take 1 (m # ms)"
        by (simp add: Let_def)
      then show ?thesis by blast
    qed
  qed
qed

text \<open>
  Where a loop ends, given that the calls made with the candidates \<open>pre\<close> all fail with
  retryable failures: at a failure that is not retryable, at a success, or at the end
  of the list.
\<close>

lemma fallback_loop_first_tried:
  "prefix (tried st @ [m]) (tried (fallback_loop R rt call i (m # ms) st))"
proof (cases "call i m")
  case (Returns r)
  then show ?thesis by simp
next
  case (Throws e)
  let ?st1 = "st\<lparr>lastError := Some e, tried := tried st @ [m]\<rparr>"
  have "prefix (tried ?st1) (tried (fallback_loop R rt call (Suc i) ms ?st1))"
    by (rule fallback_loop_tried_prefix)
  with Throws show ?thesis by (simp add: Let_def)
qed

lemma fallback_loop_reaches:
  assumes "all_fail R call 0 pre"
  shows "\<exists>st'. fallback_loop R rt call 0 (pre @ cs) initial
                 = fallback_loop R rt call (length pre) cs st'
           \<and> tried st' = pre \<and> result st' = None \<and> thrown st' = None
           \<and> (pre \<noteq> [] \<longrightarrow>
                (\<exists>e. call (length pre - 1) (last pre) = Throws e \<and> lastError st' = Some e))"
  using fallback_loop_all_fail [OF assms, of rt cs initial]
  by (auto simp: initial_def)

lemma fallback_loop_stops:
  assumes "all_fail R call 0 pre" and "call (length pre) m = Throws e" and "\<not> R e"
  shows "tried (fallback_loop R rt call 0 (pre @ m # post) initial) = pre @ [m]"
    and "result (fallback_loop R rt call 0 (pre @ m # post) initial) = None"
    and "lastError (fallback_loop R rt call 0 (pre @ m # post) initial) = Some e"
    and "thrown (fallback_loop R rt call 0 (pre @ m # post) initial) = (if rt then Some e else None)"
proof -
  from fallback_loop_reaches [OF assms(1), of rt "m # post"] obtain st' where
    st': "fallback_loop R rt call 0 (pre @ m # post) initial
            = fallback_loop R rt call (length pre) (m # post) st'"
      "tried st' = pre" "result st' = None" "thrown st' = None"
    by blast
  show "tried (fallback_loop R rt call 0 (pre @ m # post) initial) = pre @ [m]"
    using st' assms(2,3) by (simp add: Let_def)
  show "result (fallback_loop R rt call 0 (pre @ m # post) initial) = None"
    using st' assms(2,3) by (simp add: Let_def)
  show "lastError (fallback_loop R rt call 0 (pre @ m # post) initial) = Some e"
    using st' assms(2,3) by (simp add: Let_def)
  show "thrown (fallback_loop R rt call 0 (pre @ m # post) initial) = (if rt then Some e else None)"
    using st' assms(2,3) by (simp add: Let_def)
qed

lemma fallback_loop_continues:
  assumes "all_fail R call 0 pre" and "call (length pre) m = Throws e" and "R e"
  shows "prefix (pre @ [m, m']) (tried (fallback_loop R rt call 0 (pre @ m # m' # post) initial))"
proof -
  from fallback_loop_reaches [OF assms(1), of rt "m # m' # post"] obtain st' where
    st': "fallback_loop R rt call 0 (pre @ m # m' # post) initial
            = fallback_loop R rt call (length pre) (m # m' # post) st'"
      "tried st' = pre"
    by blast
  let ?st1 = "st'\<lparr>lastError := Some e, tried := tried st' @ [m]\<rparr>"
  have "fallback_loop R rt call 0 (pre @ m # m' # post) initial
          = fallback_loop R rt call (Suc (length pre)) (m' # post) ?st1"
    using st'(1) assms(2,3) by (simp add: Let_def)
  moreover have "prefix (tried ?st1 @ [m'])
      (tried (fallback_loop R rt call (Suc (length pre)) (m' # post) ?st1))"
    by (rule fallback_loop_first_tried)
  ultimately show ?thesis using st'(2) by simp
qed

lemma fallback_loop_success:
  assumes "all_fail R call 0 pre" and "call (length pre) m = Returns X"
  shows "tried (fallback_loop R rt call 0 (pre @ m # post) initial) = pre @ [m]"
    and "result (fallback_loop R rt call 0 (pre @ m # post) initial) = Some X"
    and "thrown (fallback_loop R rt call 0 (pre @ m # post) initial) = None"
proof -
  from fallback_loop_reaches [OF assms(1), of rt "m # post"] obtain st' where
    st': "fallback_loop R rt call 0 (pre @ m # post) initial
            = fallback_loop R rt call (length pre) (m # post) st'"
      "tried st' = pre" "result st' = None" "thrown st' = None"
    by blast
  show "tried (fallback_loop R rt call 0 (pre @ m # post) initial) = pre @ [m]"
    using st' assms(2) by simp
  show "result (fallback_loop R rt call 0 (pre @ m # post) initial) = Some X"
    using st' assms(2) by simp
  show "thrown (fallback_loop R rt call 0 (pre @ m # post) initial) = None"
    using st' assms(2) by simp
qed

lemma fallback_loop_exhausted:
  assumes "all_fail R call 0 cs" and "cs \<noteq> []" and "call (length cs - 1) (last cs) = Throws e"
  shows "tried (fallback_loop R rt call 0 cs initial) = cs"
    and "result (fallback_loop R rt call 0 cs initial) = None"
    and "thrown (fallback_loop R rt call 0 cs initial) = None"
    and "lastError (fallback_loop R rt call 0 cs initial) = Some e"
proof -
  from fallback_loop_reaches [OF assms(1), of rt "[]"] assms(2,3) obtain st' where
    st': "fallback_loop R rt call 0 cs initial = st'"
      "tried st' = cs" "result st' = None" "thrown st' = None" "lastError st' = Some e"
    by auto
  then show "tried (fallback_loop R rt call 0 cs initial) = cs"
    and "result (fallback_loop R rt call 0 cs initial) = None"
    and "thrown (fallback_loop R rt call 0 cs initial) = None"
    and "lastError (fallback_loop R rt call 0 cs initial) = Some e"
    by simp_all
qed

text \<open>Each candidate is a substring of the joined list, hence of the terminal messages.\<close>

lemma String_includes_append:
  assumes "String_includes s c"
  shows "String_includes (a @ s @ b) c"
proof -
  from assms obtain ps ss where "s = ps @ c @ ss"
    by (auto simp: String_includes_sublist sublist_def)
  then have "a @ s @ b = (a @ ps) @ c @ (ss @ b)" by simp
  then show ?thesis
    unfolding String_includes_sublist sublist_def by blast
qed

lemma String_includes_join:
  assumes "c \<in> set cs"
  shows "String_includes (Array_join cs sep) c"
  using assms
proof (induction cs sep rule: Array_join.induct)
  case (1 sep)
  then show ?case by simp
next
  case (2 x sep)
  then show ?case by (simp add: String_includes_sublist)
next
  case (3 x y xs sep)
  show ?case
  proof (cases "c = x")
    case True
    then show ?thesis by (simp add: String_includes_sublist)
  next
    case False
    with 3 have "String_includes (Array_join (y # xs) sep) c" by simp
    then have "String_includes ((x @ sep) @ Array_join (y # xs) sep @ []) c"
      by (rule String_includes_append)
    then show ?thesis by simp
  qed
qed

lemma terminal_messages_name_candidates:
  assumes "c \<in> set cs"
  shows "String_includes (overloaded_message cs) c"
    and "String_includes (generate_no_models_message cs) c"
    and "String_includes (describe_no_models_message cs) c"
proof -
  have j: "String_includes (Array_join cs '', '') c"
    using assms by (rule String_includes_join)
  have "String_includes (overloaded_message cs @ []) c"
    unfolding overloaded_message_def append_assoc by (rule String_includes_append [OF j])
  then show "String_includes (overloaded_message cs) c"
    by (simp only: append_Nil2)
  show "String_includes (generate_no_models_message cs) c"
    unfolding generate_no_models_message_def by (rule String_includes_append [OF j])
  show "String_includes (describe_no_models_message cs) c"
    unfolding describe_no_models_message_def by (rule String_includes_append [OF j])
qed

text \<open>
  Claim C5. Let the candidate list be \<open>pre @ m # post\<close> and \<open>N = length pre + 1\<close>. If the
  attempts 1 to \<open>N - 1\<close> (those made with \<open>pre\<close>) fail with failures retryable for the
  route and attempt \<open>N\<close> (made with \<open>m\<close>) returns \<open>X\<close>, then the route's invoker returns
  \<open>X\<close>, and the candidates it has called are exactly \<open>pre @ [m]\<close>: \<open>N\<close> attempts, none
  with a candidate of \<open>post\<close>.
\<close>

theorem returns_first_success:
  assumes "call (length pre) m = Returns X"
  shows "(all_fail generate_retryable call 0 pre \<longrightarrow>
            generate_invoke call (pre @ m # post) = Inr X
          \<and> tried (generate_loop call 0 (pre @ m # post) initial) = pre @ [m]
          \<and> length (tried (generate_loop call 0 (pre @ m # post) initial)) = length pre + 1)
       \<and> (all_fail describe_retryable call 0 pre \<longrightarrow>
            describe_invoke call (pre @ m # post) = Inr X
          \<and> tried (describe_loop call 0 (pre @ m # post) initial) = pre @ [m]
          \<and> length (tried (describe_loop call 0 (pre @ m # post) initial)) = length pre + 1)
       \<and> (all_fail tts_retryable call 0 pre \<longrightarrow>
            tts_after_loop (tts_loop call 0 (pre @ m # post) initial) = Inr X
          \<and> tried (tts_loop call 0 (pre @ m # post) initial) = pre @ [m]
          \<and> length (tried (tts_loop call 0 (pre @ m # post) initial)) = length pre + 1)"
proof (intro conjI impI)
  assume a: "all_fail generate_retryable call 0 pre"
  note s = fallback_loop_success [OF a assms, where rt = True and post = post]
  show "generate_invoke call (pre @ m # post) = Inr X"
    using s(2,3) by (simp add: generate_invoke_def generate_loop_fallback)
  show t: "tried (generate_loop call 0 (pre @ m # post) initial) = pre @ [m]"
    using s(1) by (simp add: generate_loop_fallback)
  show "length (tried (generate_loop call 0 (pre @ m # post) initial)) = length pre + 1"
    unfolding t by simp
next
  assume a: "all_fail describe_retryable call 0 pre"
  note s = fallback_loop_success [OF a assms, where rt = False and post = post]
  show "describe_invoke call (pre @ m # post) = Inr X"
    using s(2) by (simp add: describe_invoke_def describe_loop_fallback)
  show t: "tried (describe_loop call 0 (pre @ m # post) initial) = pre @ [m]"
    using s(1) by (simp add: describe_loop_fallback)
  show "length (tried (describe_loop call 0 (pre @ m # post) initial)) = length pre + 1"
    unfolding t by simp
next
  assume a: "all_fail tts_retryable call 0 pre"
  note s = fallback_loop_success [OF a assms, where rt = False and post = post]
  show "tts_after_loop (tts_loop call 0 (pre @ m # post) initial) = Inr X"
    using s(2) by (simp add: tts_after_loop_def tts_loop_fallback)
  show t: "tried (tts_loop call 0 (pre @ m # post) initial) = pre @ [m]"
    using s(1) by (simp add: tts_loop_fallback)
  show "length (tried (tts_loop call 0 (pre @ m # post) initial)) = length pre + 1"
    unfolding t by simp
qed

theorem returns_first_success_witness:
  "scripted [Throws \<lparr>status = Some 503, message = ''overloaded''\<rparr>, Returns ''ok'']
       (length [''gemini-1.5-flash'']) ''gemini-1.5-pro'' = Returns ''ok''
   \<and> all_fail generate_retryable
     (scripted [Throws \<lparr>status = Some 503, message = ''overloaded''\<rparr>, Returns ''ok''])
     0 [''gemini-1.5-flash'']
   \<and> generate_invoke
       (scripted [Throws \<lparr>status = Some 503, message = ''overloaded''\<rparr>, Returns ''ok''])
       [''gemini-1.5-flash'', ''gemini-1.5-pro'', ''gemini-pro''] = Inr ''ok''
   \<and> tried (generate_loop
       (scripted [Throws \<lparr>status = Some 503, message = ''overloaded''\<rparr>, Returns ''ok''])
       0 [''gemini-1.5-flash'', ''gemini-1.5-pro'', ''gemini-pro''] initial)
       = [''gemini-1.5-flash'', ''gemini-1.5-pro'']"
proof -
  let ?call = "scripted [Throws \<lparr>status = Some 503, message = ''overloaded''\<rparr>, Returns ''ok'']"
  have h1: "?call (length [''gemini-1.5-flash'']) ''gemini-1.5-pro'' = Returns ''ok''"
    by (simp add: scripted_def)
  have h2: "all_fail generate_retryable ?call 0 [''gemini-1.5-flash'']"
    by (simp add: scripted_def generate_retryable_def)
  from returns_first_success [where call = ?call and pre = "[''gemini-1.5-flash'']"
      and m = "''gemini-1.5-pro''" and X = "''ok''" and post = "[''gemini-pro'']", OF h1] h1 h2
  show ?thesis by simp
qed

text \<open>
  Claim C1, as amended. Let the candidate list be \<open>pre @ m # m' # post\<close>, let the attempts
  made with \<open>pre\<close> fail with retryable failures and the attempt made with \<open>m\<close> fail with
  \<open>e\<close>. Then the loop goes on to the next candidate \<open>m'\<close> exactly when \<open>e\<close> is retryable for
  that loop, and otherwise stops with \<open>m\<close> the last candidate called. Retryable is: in the
  generate route, status 503, 404 or 400; in the describe route, status 503, 429, 404 or
  400; in the speech route, every failure but status 401.
\<close>

theorem continues_exactly_when_retryable:
  assumes "(loop, retryable) \<in>
      {(generate_loop, generate_retryable), (describe_loop, describe_retryable),
       (tts_loop, tts_retryable)}"
    and "all_fail retryable call 0 pre"
    and "call (length pre) m = Throws e"
  shows "prefix (pre @ [m, m']) (tried (loop call 0 (pre @ m # m' # post) initial))
           = retryable e
       \<and> (\<not> retryable e \<longrightarrow>
            tried (loop call 0 (pre @ m # m' # post) initial) = pre @ [m])"
proof -
  from assms(1) obtain rt where
    loop: "\<And>cs. loop call 0 cs initial = fallback_loop retryable rt call 0 cs initial"
    by (auto simp: generate_loop_fallback describe_loop_fallback tts_loop_fallback)
  show ?thesis
  proof (cases "retryable e")
    case True
    from fallback_loop_continues [OF assms(2,3) True, where rt = rt and m' = m' and post = post]
      True
    show ?thesis
      by (simp add: loop)
  next
    case False
    from fallback_loop_stops(1) [OF assms(2,3) False, where rt = rt and post = "m' # post"] False
    show ?thesis by (simp add: loop)
  qed
qed

theorem continues_exactly_when_retryable_witness:
  "(describe_loop, describe_retryable) \<in>
      {(generate_loop, generate_retryable), (describe_loop, describe_retryable),
       (tts_loop, tts_retryable)}
   \<and> all_fail describe_retryable
       (scripted [Throws \<lparr>status = Some 503, message = ''overloaded''\<rparr>,
                  Throws \<lparr>status = Some 403, message = ''forbidden''\<rparr>, Returns ''ok''])
       0 [''a'']
   \<and> scripted [Throws \<lparr>status = Some 503, message = ''overloaded''\<rparr>,
                Throws \<lparr>status = Some 403, message = ''forbidden''\<rparr>, Returns ''ok'']
       (length [''a'']) ''b'' = Throws \<lparr>status = Some 403, message = ''forbidden''\<rparr>
   \<and> \<not> describe_retryable \<lparr>status = Some 403, message = ''forbidden''\<rparr>
   \<and> tried (describe_loop
       (scripted [Throws \<lparr>status = Some 503, message = ''overloaded''\<rparr>,
                  Throws \<lparr>status = Some 403, message = ''forbidden''\<rparr>, Returns ''ok''])
       0 [''a'', ''b'', ''c''] initial) = [''a'', ''b'']"
proof -
  let ?call = "scripted [Throws \<lparr>status = Some 503, message = ''overloaded''\<rparr>,
                  Throws \<lparr>status = Some 403, message = ''forbidden''\<rparr>, Returns ''ok'']"
  have h1: "(describe_loop, describe_retryable) \<in>
      {(generate_loop, generate_retryable), (describe_loop, describe_retryable),
       (tts_loop, tts_retryable)}" by simp
  have h2: "all_fail describe_retryable ?call 0 [''a'']"
    by (simp add: scripted_def describe_retryable_def)
  have h3: "?call (length [''a'']) ''b'' = Throws \<lparr>status = Some 403, message = ''forbidden''\<rparr>"
    by (simp add: scripted_def)
  have h4: "\<not> describe_retryable \<lparr>status = Some 403, message = ''forbidden''\<rparr>"
    by (simp add: describe_retryable_def)
  from continues_exactly_when_retryable [OF h1 h2 h3, of "''c''" "[]"] h1 h2 h3 h4
  show ?thesis by simp
qed

text \<open>
  The claim as it is written fails: 429 and 500 are not among 503, 404 and 400, yet the
  describe loop goes on to the next candidate after a 429 and the speech loop after a 500.
\<close>

theorem describe_and_tts_continue_on_other_statuses:
  "Some 429 \<notin> {Some 503, Some 404, Some (400 :: int)}
   \<and> tried (describe_loop
       (scripted [Throws \<lparr>status = Some 429, message = ''rate limited''\<rparr>, Returns ''ok''])
       0 [''a'', ''b''] initial) = [''a'', ''b'']
   \<and> Some 500 \<notin> {Some 503, Some 404, Some (400 :: int)}
   \<and> tried (tts_loop
       (scripted [Throws \<lparr>status = Some 500, message = ''server error''\<rparr>, Returns ''audio''])
       0 [''eleven_turbo_v2_5'', ''eleven_turbo_v2''] initial)
       = [''eleven_turbo_v2_5'', ''eleven_turbo_v2'']"
  by (simp add: scripted_def initial_def)

text \<open>
  A failure that is not retryable ends the loop: with the candidate list \<open>pre @ m # post\<close>,
  the attempts made with \<open>pre\<close> failing with retryable failures and the attempt made with
  \<open>m\<close> failing with such a failure \<open>e\<close>, the candidates called are exactly \<open>pre @ [m]\<close>.
  The generate route throws \<open>e\<close> itself to its outer handler, and the speech route, where
  only status 401 is not retryable, answers with HTTP status 401.
\<close>

lemma fatal_failure_stops:
  assumes "call (length pre) m = Throws e"
  shows "(all_fail generate_retryable call 0 pre \<and> \<not> generate_retryable e \<longrightarrow>
            tried (generate_loop call 0 (pre @ m # post) initial) = pre @ [m]
          \<and> generate_invoke call (pre @ m # post) = Inl (Throw e))
       \<and> (all_fail describe_retryable call 0 pre \<and> \<not> describe_retryable e \<longrightarrow>
            tried (describe_loop call 0 (pre @ m # post) initial) = pre @ [m]
          \<and> lastError (describe_loop call 0 (pre @ m # post) initial) = Some e)
       \<and> (all_fail tts_retryable call 0 pre \<and> \<not> tts_retryable e \<longrightarrow>
            tried (tts_loop call 0 (pre @ m # post) initial) = pre @ [m]
          \<and> lastError (tts_loop call 0 (pre @ m # post) initial) = Some e
          \<and> tts_after_loop (tts_loop call 0 (pre @ m # post) initial)
              = Inl (Respond tts_unauthorized))"
proof (intro conjI impI; elim conjE)
  assume a: "all_fail generate_retryable call 0 pre" "\<not> generate_retryable e"
  note s = fallback_loop_stops [OF a(1) assms a(2), where rt = True and post = post]
  show "tried (generate_loop call 0 (pre @ m # post) initial) = pre @ [m]"
    using s(1) by (simp add: generate_loop_fallback)
  show "generate_invoke call (pre @ m # post) = Inl (Throw e)"
    using s(4) by (simp add: generate_invoke_def generate_loop_fallback)
next
  assume a: "all_fail describe_retryable call 0 pre" "\<not> describe_retryable e"
  note s = fallback_loop_stops [OF a(1) assms a(2), where rt = False and post = post]
  show "tried (describe_loop call 0 (pre @ m # post) initial) = pre @ [m]"
    using s(1) by (simp add: describe_loop_fallback)
  show "lastError (describe_loop call 0 (pre @ m # post) initial) = Some e"
    using s(3) by (simp add: describe_loop_fallback)
next
  assume a: "all_fail tts_retryable call 0 pre" "\<not> tts_retryable e"
  note s = fallback_loop_stops [OF a(1) assms a(2), where rt = False and post = post]
  show "tried (tts_loop call 0 (pre @ m # post) initial) = pre @ [m]"
    using s(1) by (simp add: tts_loop_fallback)
  show "lastError (tts_loop call 0 (pre @ m # post) initial) = Some e"
    using s(3) by (simp add: tts_loop_fallback)
  show "tts_after_loop (tts_loop call 0 (pre @ m # post) initial)
              = Inl (Respond tts_unauthorized)"
  proof -
    from a(2) have "status e = Some 401" by (simp add: tts_retryable_def)
    with s(2,3) show ?thesis
      by (simp add: tts_after_loop_def tts_loop_fallback lastError_status_def)
  qed
qed

text \<open>
  Claim C4. After a failure that is not retryable no later candidate is to be called and
  the failure is to reach the caller as it is; for the candidates \<^verbatim>\<open>["a","b"]\<close> and a first
  attempt that fails with status 401, the caller is to get an Unauthorized error after
  exactly one attempt. On that input the describe route makes exactly one attempt, but
  answers with HTTP status 500: the chain after its loop has branches for 429, 503 and 404
  and none for 401. On the same input the generate route throws the 401 error itself, and
  the speech route answers with HTTP status 401.
\<close>

theorem describe_answers_401_with_500:
  "tried (describe_loop
     (scripted [Throws \<lparr>status = Some 401, message = ''API key not valid''\<rparr>, Returns ''ok''])
     0 [''a'', ''b''] initial) = [''a'']
   \<and> describe_invoke
     (scripted [Throws \<lparr>status = Some 401, message = ''API key not valid''\<rparr>, Returns ''ok''])
     [''a'', ''b'']
     = Inl (Respond \<lparr>http_status = 500, body_error = ''API key not valid'',
              body_details = None, body_retryAfter = None\<rparr>)
   \<and> generate_invoke
     (scripted [Throws \<lparr>status = Some 401, message = ''API key not valid''\<rparr>, Returns ''ok''])
     [''a'', ''b'']
     = Inl (Throw \<lparr>status = Some 401, message = ''API key not valid''\<rparr>)
   \<and> tts_after_loop (tts_loop
     (scripted [Throws \<lparr>status = Some 401, message = ''API key not valid''\<rparr>, Returns ''ok''])
     0 [''a'', ''b''] initial)
     = Inl (Respond tts_unauthorized)
   \<and> http_status tts_unauthorized = 401"
  by (simp add: describe_invoke_def generate_invoke_def tts_after_loop_def scripted_def
      initial_def lastError_status_def lastError_message_or_def tts_unauthorized_def)

text \<open>
  Claim C3, as amended. Let every attempt on a non-empty candidate list fail with a
  retryable failure, the last one with \<open>e\<close>. If \<open>e\<close> has status 503, the generate route
  throws, and the describe route answers with HTTP status 503, the overloaded message; if
  \<open>e\<close> has status 404, they do so with their not-found messages (HTTP status 404 in the
  describe route); each of these messages contains every candidate of the list. If \<open>e\<close> has
  status 429, the describe route answers with its rate-limit response (HTTP status 429).
\<close>

theorem exhausted_candidates_terminal_error:
  assumes "cs \<noteq> []"
    and "call (length cs - 1) (last cs) = Throws e"
  shows "(all_fail generate_retryable call 0 cs \<and> status e = Some 503 \<longrightarrow>
            generate_invoke call cs = Inl (Throw (new_Error (overloaded_message cs))))
       \<and> (all_fail generate_retryable call 0 cs \<and> status e = Some 404 \<longrightarrow>
            generate_invoke call cs = Inl (Throw (new_Error (generate_no_models_message cs))))
       \<and> (all_fail describe_retryable call 0 cs \<and> status e = Some 503 \<longrightarrow>
            describe_invoke call cs =
              Inl (Respond \<lparr>http_status = 503, body_error = overloaded_message cs,
                     body_details = None, body_retryAfter = None\<rparr>))
       \<and> (all_fail describe_retryable call 0 cs \<and> status e = Some 404 \<longrightarrow>
            describe_invoke call cs =
              Inl (Respond \<lparr>http_status = 404, body_error = describe_no_models_message cs,
                     body_details = None, body_retryAfter = None\<rparr>))
       \<and> (all_fail describe_retryable call 0 cs \<and> status e = Some 429 \<longrightarrow>
            describe_invoke call cs = Inl (Respond describe_rate_limited))
       \<and> (\<forall>c \<in> set cs.
            String_includes (overloaded_message cs) c
          \<and> String_includes (generate_no_models_message cs) c
          \<and> String_includes (describe_no_models_message cs) c)"
proof (intro conjI impI ballI; (elim conjE)?)
  assume a: "all_fail generate_retryable call 0 cs" "status e = Some 503"
  note s = fallback_loop_exhausted [OF a(1) assms, where rt = True]
  show "generate_invoke call cs = Inl (Throw (new_Error (overloaded_message cs)))"
    using s(2,3,4) a(2)
    by (simp add: generate_invoke_def generate_loop_fallback lastError_status_def Let_def)
next
  assume a: "all_fail generate_retryable call 0 cs" "status e = Some 404"
  note s = fallback_loop_exhausted [OF a(1) assms, where rt = True]
  show "generate_invoke call cs = Inl (Throw (new_Error (generate_no_models_message cs)))"
    using s(2,3,4) a(2)
    by (simp add: generate_invoke_def generate_loop_fallback lastError_status_def Let_def)
next
  assume a: "all_fail describe_retryable call 0 cs" "status e = Some 503"
  note s = fallback_loop_exhausted [OF a(1) assms, where rt = False]
  show "describe_invoke call cs =
              Inl (Respond \<lparr>http_status = 503, body_error = overloaded_message cs,
                     body_details = None, body_retryAfter = None\<rparr>)"
    using s(2,4) a(2)
    by (simp add: describe_invoke_def describe_loop_fallback lastError_status_def Let_def)
next
  assume a: "all_fail describe_retryable call 0 cs" "status e = Some 404"
  note s = fallback_loop_exhausted [OF a(1) assms, where rt = False]
  show "describe_invoke call cs =
              Inl (Respond \<lparr>http_status = 404, body_error = describe_no_models_message cs,
                     body_details = None, body_retryAfter = None\<rparr>)"
    using s(2,4) a(2)
    by (simp add: describe_invoke_def describe_loop_fallback lastError_status_def Let_def)
next
  assume a: "all_fail describe_retryable call 0 cs" "status e = Some 429"
  note s = fallback_loop_exhausted [OF a(1) assms, where rt = False]
  show "describe_invoke call cs = Inl (Respond describe_rate_limited)"
    using s(2,4) a(2)
    by (simp add: describe_invoke_def describe_loop_fallback lastError_status_def Let_def)
next
  fix c assume "c \<in> set cs"
  then show "String_includes (overloaded_message cs) c"
    and "String_includes (generate_no_models_message cs) c"
    and "String_includes (describe_no_models_message cs) c"
    by (rule terminal_messages_name_candidates)+
qed

theorem exhausted_candidates_terminal_error_witness:
  "[''gemini-1.5-flash'', ''gemini-1.5-pro''] \<noteq> []
   \<and> (scripted [Throws \<lparr>status = Some 404, message = ''not found''\<rparr>,
                Throws \<lparr>status = Some 503, message = ''overloaded''\<rparr>]
         :: nat \<Rightarrow> string \<Rightarrow> string attempt)
       (length [''gemini-1.5-flash'', ''gemini-1.5-pro''] - 1)
       (last [''gemini-1.5-flash'', ''gemini-1.5-pro''])
     = Throws \<lparr>status = Some 503, message = ''overloaded''\<rparr>
   \<and> all_fail generate_retryable
       (scripted [Throws \<lparr>status = Some 404, message = ''not found''\<rparr>,
                  Throws \<lparr>status = Some 503, message = ''overloaded''\<rparr>]
         :: nat \<Rightarrow> string \<Rightarrow> string attempt)
       0 [''gemini-1.5-flash'', ''gemini-1.5-pro'']
   \<and> status \<lparr>status = Some 503, message = ''overloaded''\<rparr> = Some 503
   \<and> generate_invoke
       (scripted [Throws \<lparr>status = Some 404, message = ''not found''\<rparr>,
                  Throws \<lparr>status = Some 503, message = ''overloaded''\<rparr>])
       [''gemini-1.5-flash'', ''gemini-1.5-pro'']
     = (Inl (Throw (new_Error (overloaded_message [''gemini-1.5-flash'', ''gemini-1.5-pro''])))
        :: failure + string)
   \<and> String_includes (overloaded_message [''gemini-1.5-flash'', ''gemini-1.5-pro''])
       ''gemini-1.5-flash''
   \<and> String_includes (overloaded_message [''gemini-1.5-flash'', ''gemini-1.5-pro''])
       ''gemini-1.5-pro''"
proof -
  let ?e = "\<lparr>status = Some 503, message = ''overloaded''\<rparr>"
  let ?call = "scripted [Throws \<lparr>status = Some 404, message = ''not found''\<rparr>, Throws ?e]
                 :: nat \<Rightarrow> string \<Rightarrow> string attempt"
  let ?cs = "[''gemini-1.5-flash'', ''gemini-1.5-pro'']"
  have h1: "?cs \<noteq> []" by simp
  have h2: "?call (length ?cs - 1) (last ?cs) = Throws ?e"
    by (simp add: scripted_def)
  have h3: "all_fail generate_retryable ?call 0 ?cs"
    by (simp add: scripted_def generate_retryable_def)
  have h4: "status ?e = Some 503" by simp
  have m: "''gemini-1.5-flash'' \<in> set ?cs" "''gemini-1.5-pro'' \<in> set ?cs" by simp_all
  note t = exhausted_candidates_terminal_error
    [where call = ?call and cs = ?cs and e = ?e, OF h1 h2]
  from t h3 h4 have r: "generate_invoke ?call ?cs
     = Inl (Throw (new_Error (overloaded_message ?cs)))" by blast
  from t m have i: "String_includes (overloaded_message ?cs) ''gemini-1.5-flash''"
    "String_includes (overloaded_message ?cs) ''gemini-1.5-pro''" by blast+
  show ?thesis by (intro conjI) (rule h1 h2 h3 h4 r i)+
qed

text \<open>
  The claim as it is written fails: two candidates that both fail with the retryable
  status 400 leave the generate route with the error \<^verbatim>\<open>API Error: bad request\<close>, which
  does not contain the first candidate; and two candidates that both fail with status 429,
  retryable in the describe route, leave it with the rate-limit answer, which names no
  candidate either.
\<close>

theorem exhausted_error_without_candidates:
  "all_fail generate_retryable
     (scripted [Throws \<lparr>status = Some 400, message = ''bad request''\<rparr>,
                Throws \<lparr>status = Some 400, message = ''bad request''\<rparr>]
       :: nat \<Rightarrow> string \<Rightarrow> string attempt)
     0 [''m1'', ''m2'']
   \<and> generate_invoke
     (scripted [Throws \<lparr>status = Some 400, message = ''bad request''\<rparr>,
                Throws \<lparr>status = Some 400, message = ''bad request''\<rparr>])
     [''m1'', ''m2'']
     = (Inl (Throw \<lparr>status = None, message = ''API Error: bad request''\<rparr>) :: failure + string)
   \<and> \<not> String_includes ''API Error: bad request'' ''m1''
   \<and> all_fail describe_retryable
     (scripted [Throws \<lparr>status = Some 429, message = ''quota''\<rparr>,
                Throws \<lparr>status = Some 429, message = ''quota''\<rparr>]
       :: nat \<Rightarrow> string \<Rightarrow> string attempt)
     0 [''m1'', ''m2'']
   \<and> describe_invoke
     (scripted [Throws \<lparr>status = Some 429, message = ''quota''\<rparr>,
                Throws \<lparr>status = Some 429, message = ''quota''\<rparr>])
     [''m1'', ''m2'']
     = (Inl (Respond describe_rate_limited) :: failure + string)
   \<and> \<not> String_includes (body_error describe_rate_limited) ''m1''"
  by (simp add: generate_invoke_def describe_invoke_def scripted_def initial_def
      generate_retryable_def describe_retryable_def new_Error_def
      lastError_status_def lastError_message_or_def describe_rate_limited_def)

section \<open>The Local Response Cache\<close>

text \<open>
  Claim C6, as amended. In a browser, a read of a key with no entry returns none and
  leaves the store as it is. A read of a key whose entry parses to \<open>data\<close> returns the
  stored value, leaving the store as it is, exactly when the version of \<open>data\<close> is the
  current version and its age is at most the expiry time, \<open>now - timestamp data \<le>
  CACHE_EXPIRY_MS\<close> (7 days, in milliseconds); otherwise it removes the entry and returns
  none. In particular an entry whose age is the expiry time plus 1 ms reads as none.
\<close>

theorem stored_entry_read:
  assumes "window_defined b"
  shows "(localStorage b (CACHE_PREFIX @ name) = None \<longrightarrow>
            getCachedImage JSON_parse b now name = (None, b))
       \<and> (localStorage b (CACHE_PREFIX @ name) = Some cached \<and> cached \<noteq> []
            \<and> JSON_parse cached = Some data \<longrightarrow>
            getCachedImage JSON_parse b now name =
              (if version data = Some CACHE_VERSION
                  \<and> now - timestamp data \<le> CACHE_EXPIRY_MS
               then (Some (url data), b)
               else (None, removeItem b (CACHE_PREFIX @ name)))
            \<and> localStorage (removeItem b (CACHE_PREFIX @ name)) (CACHE_PREFIX @ name) = None
            \<and> (now - timestamp data = CACHE_EXPIRY_MS + 1 \<longrightarrow>
                 fst (getCachedImage JSON_parse b now name) = None))
       \<and> CACHE_EXPIRY_MS = 7 * 24 * 60 * 60 * 1000"
  using assms
  by (auto simp: getCachedImage_def removeItem_def CACHE_EXPIRY_MS_def CACHE_EXPIRY_DAYS_def)

text \<open>
  The claim as it is written fails: it takes an entry for valid only when its age is
  under the expiry time. An entry aged exactly 7 days is not under it, and the read
  returns its value and leaves it in the store.
\<close>

theorem entry_aged_exactly_ttl_is_returned:
  "\<not> (604801000 - timestamp \<lparr>url = ''https://img.example/push-ups.png'', timestamp = 1000,
            version = Some ''v2''\<rparr> < CACHE_EXPIRY_MS)
   \<and> localStorage sample_browser (CACHE_PREFIX @ ''push-ups'') = Some json_push_ups
   \<and> parse_table json_table json_push_ups =
       Some \<lparr>url = ''https://img.example/push-ups.png'', timestamp = 1000,
            version = Some ''v2''\<rparr>
   \<and> getCachedImage (parse_table json_table) sample_browser 604801000 ''push-ups''
       = (Some ''https://img.example/push-ups.png'', sample_browser)"
  by (simp add: getCachedImage_def sample_browser_def parse_table_def json_table_def
      json_push_ups_def json_pull_ups_def json_squats_def json_plank_def
      CACHE_PREFIX_def CACHE_VERSION_def CACHE_EXPIRY_MS_def CACHE_EXPIRY_DAYS_def)


theorem stored_entry_read_witness:
  "window_defined sample_browser
   \<and> localStorage sample_browser (CACHE_PREFIX @ ''push-ups'') = Some json_push_ups
   \<and> json_push_ups \<noteq> []
   \<and> parse_table json_table json_push_ups =
       Some \<lparr>url = ''https://img.example/push-ups.png'', timestamp = 1000,
            version = Some ''v2''\<rparr>
   \<and> 604801001 - timestamp \<lparr>url = ''https://img.example/push-ups.png'', timestamp = 1000,
            version = Some ''v2''\<rparr> = CACHE_EXPIRY_MS + 1
   \<and> getCachedImage (parse_table json_table) sample_browser 604801001 ''push-ups''
       = (None, removeItem sample_browser (CACHE_PREFIX @ ''push-ups''))
   \<and> getCachedImage (parse_table json_table) sample_browser 5000 ''push-ups''
       = (Some ''https://img.example/push-ups.png'', sample_browser)"
proof -
  let ?d = "\<lparr>url = ''https://img.example/push-ups.png'', timestamp = 1000,
            version = Some ''v2''\<rparr>"
  have h1: "window_defined sample_browser" by (simp add: sample_browser_def)
  have h2: "localStorage sample_browser (CACHE_PREFIX @ ''push-ups'') = Some json_push_ups"
    by (simp add: sample_browser_def CACHE_PREFIX_def)
  have h3: "json_push_ups \<noteq> []" by (simp add: json_push_ups_def)
  have h4: "parse_table json_table json_push_ups = Some ?d"
    by (simp add: parse_table_def json_table_def)
  have h5: "604801001 - timestamp ?d = CACHE_EXPIRY_MS + 1"
    by (simp add: CACHE_EXPIRY_MS_def CACHE_EXPIRY_DAYS_def)
  have v: "version ?d = Some CACHE_VERSION" by (simp add: CACHE_VERSION_def)
  have late: "\<not> 604801001 - timestamp ?d \<le> CACHE_EXPIRY_MS"
    and early: "5000 - timestamp ?d \<le> CACHE_EXPIRY_MS"
    by (simp_all add: CACHE_EXPIRY_MS_def CACHE_EXPIRY_DAYS_def)
  note t = stored_entry_read [OF h1, where JSON_parse = "parse_table json_table"
      and name = "''push-ups''" and cached = json_push_ups and data = ?d]
  from t [where now = 604801001] h2 h3 h4 v late
  have r1: "getCachedImage (parse_table json_table) sample_browser 604801001 ''push-ups''
       = (None, removeItem sample_browser (CACHE_PREFIX @ ''push-ups''))" by simp
  from t [where now = 5000] h2 h3 h4 v early
  have r2: "getCachedImage (parse_table json_table) sample_browser 5000 ''push-ups''
       = (Some ''https://img.example/push-ups.png'', sample_browser)" by simp
  show ?thesis by (intro conjI) (rule h1 h2 h3 h4 h5 r1 r2)+
qed

text \<open>
  Claim C8. In a browser whose store accepts the write, and with a JSON codec that reads
  back the entry it has written, \<^verbatim>\<open>setCachedImage(k, v)\<close> followed by
  \<^verbatim>\<open>getCachedImage(k)\<close> at the same instant returns \<open>v\<close> (and the read leaves the store
  as the write left it).
\<close>

theorem write_then_read_returns_value:
  assumes "window_defined b" and "\<not> quota_exceeded b"
    and "JSON_parse (JSON_stringify \<lparr>url = v, timestamp = now, version = Some CACHE_VERSION\<rparr>)
           = Some \<lparr>url = v, timestamp = now, version = Some CACHE_VERSION\<rparr>"
    and "JSON_stringify \<lparr>url = v, timestamp = now, version = Some CACHE_VERSION\<rparr> \<noteq> []"
  shows "getCachedImage JSON_parse (setCachedImage JSON_stringify b now k v) now k
           = (Some v, setCachedImage JSON_stringify b now k v)"
  using assms
  by (simp add: getCachedImage_def setCachedImage_def setItem_def Let_def
      CACHE_EXPIRY_MS_def CACHE_EXPIRY_DAYS_def)

theorem write_then_read_returns_value_witness:
  "window_defined sample_browser \<and> \<not> quota_exceeded sample_browser
   \<and> parse_table json_table (stringify_table json_table
         \<lparr>url = ''https://img.example/pull-ups.png'', timestamp = 2000,
          version = Some CACHE_VERSION\<rparr>)
       = Some \<lparr>url = ''https://img.example/pull-ups.png'', timestamp = 2000,
          version = Some CACHE_VERSION\<rparr>
   \<and> stringify_table json_table
         \<lparr>url = ''https://img.example/pull-ups.png'', timestamp = 2000,
          version = Some CACHE_VERSION\<rparr> \<noteq> []
   \<and> fst (getCachedImage (parse_table json_table)
         (setCachedImage (stringify_table json_table) sample_browser 2000 ''pull-ups''
            ''https://img.example/pull-ups.png'') 2000 ''pull-ups'')
       = Some ''https://img.example/pull-ups.png''"
proof -
  let ?d = "\<lparr>url = ''https://img.example/pull-ups.png'', timestamp = 2000,
          version = Some CACHE_VERSION\<rparr>"
  have h1: "window_defined sample_browser" and h2: "\<not> quota_exceeded sample_browser"
    by (simp_all add: sample_browser_def)
  have s: "stringify_table json_table ?d = json_pull_ups"
    by (simp add: stringify_table_def json_table_def CACHE_VERSION_def)
  have h3: "parse_table json_table (stringify_table json_table ?d) = Some ?d"
    unfolding s by (simp add: parse_table_def json_table_def CACHE_VERSION_def
      json_push_ups_def json_pull_ups_def)
  have h4: "stringify_table json_table ?d \<noteq> []"
    unfolding s by (simp add: json_pull_ups_def)
  from write_then_read_returns_value [where JSON_parse = "parse_table json_table"
      and JSON_stringify = "stringify_table json_table" and k = "''pull-ups''", OF h1 h2 h3 h4]
  have r: "fst (getCachedImage (parse_table json_table)
         (setCachedImage (stringify_table json_table) sample_browser 2000 ''pull-ups''
            ''https://img.example/pull-ups.png'') 2000 ''pull-ups'')
       = Some ''https://img.example/pull-ups.png''" by simp
  show ?thesis by (intro conjI) (rule h1 h2 h3 h4 r)+
qed

text \<open>
  Claim C10, as amended. When the text stored under a key does not parse (\<^verbatim>\<open>JSON.parse\<close>
  throws, or yields \<^verbatim>\<open>null\<close>), a read returns none and leaves the browser as it was, so
  that the text is still there at every later read, which returns none again. A text
  that parses to a value without the current version, such as a JSON value of another
  shape, is removed by the read, which returns none. And a read changes the store only
  when the text under the key parses to a value of another version or to an expired
  entry.
\<close>

theorem unparseable_entry_stays:
  assumes "localStorage b (CACHE_PREFIX @ name) = Some cached"
    and "JSON_parse cached = None"
  shows "getCachedImage JSON_parse b now name = (None, b)
       \<and> getCachedImage JSON_parse (snd (getCachedImage JSON_parse b now name)) now' name
           = (None, b)
       \<and> (window_defined bw \<and> localStorage bw (CACHE_PREFIX @ namew) = Some cachedw
            \<and> cachedw \<noteq> [] \<and> JSON_parse cachedw = Some dataw
            \<and> version dataw \<noteq> Some CACHE_VERSION \<longrightarrow>
            getCachedImage JSON_parse bw tw namew
              = (None, removeItem bw (CACHE_PREFIX @ namew))
          \<and> localStorage (removeItem bw (CACHE_PREFIX @ namew)) (CACHE_PREFIX @ namew) = None)
       \<and> (snd (getCachedImage JSON_parse b' now' name') \<noteq> b' \<longrightarrow>
            (\<exists>text data. localStorage b' (CACHE_PREFIX @ name') = Some text
               \<and> JSON_parse text = Some data
               \<and> (version data \<noteq> Some CACHE_VERSION
                    \<or> now' - timestamp data > CACHE_EXPIRY_MS)))"
proof -
  from assms have r: "\<And>t. getCachedImage JSON_parse b t name = (None, b)"
    by (simp add: getCachedImage_def)
  have ev: "window_defined bw \<and> localStorage bw (CACHE_PREFIX @ namew) = Some cachedw
            \<and> cachedw \<noteq> [] \<and> JSON_parse cachedw = Some dataw
            \<and> version dataw \<noteq> Some CACHE_VERSION \<longrightarrow>
            getCachedImage JSON_parse bw tw namew
              = (None, removeItem bw (CACHE_PREFIX @ namew))
          \<and> localStorage (removeItem bw (CACHE_PREFIX @ namew)) (CACHE_PREFIX @ namew) = None"
    by (simp add: getCachedImage_def removeItem_def)
  have only: "snd (getCachedImage JSON_parse b' now' name') \<noteq> b' \<longrightarrow>
            (\<exists>text data. localStorage b' (CACHE_PREFIX @ name') = Some text
               \<and> JSON_parse text = Some data
               \<and> (version data \<noteq> Some CACHE_VERSION
                    \<or> now' - timestamp data > CACHE_EXPIRY_MS))"
    by (auto simp: getCachedImage_def split: option.splits if_splits)
  show ?thesis
    by (intro conjI) (simp add: r, simp add: r, rule ev, rule only)
qed

theorem unparseable_entry_stays_witness:
  "localStorage sample_browser (CACHE_PREFIX @ ''lunges'') = Some ''{url: https://img.exam''
   \<and> parse_table json_table ''{url: https://img.exam'' = None
   \<and> getCachedImage (parse_table json_table) sample_browser 5000 ''lunges''
       = (None, sample_browser)
   \<and> getCachedImage (parse_table json_table)
         (snd (getCachedImage (parse_table json_table) sample_browser 5000 ''lunges''))
         6000 ''lunges''
       = (None, sample_browser)
   \<and> window_defined sample_browser
   \<and> localStorage sample_browser (CACHE_PREFIX @ ''squats'') = Some json_squats
   \<and> json_squats \<noteq> []
   \<and> parse_table json_table json_squats
       = Some \<lparr>url = ''https://img.example/squats.png'', timestamp = 1000,
               version = Some ''v1''\<rparr>
   \<and> Some ''v1'' \<noteq> Some CACHE_VERSION
   \<and> getCachedImage (parse_table json_table) sample_browser 5000 ''squats''
       = (None, removeItem sample_browser (CACHE_PREFIX @ ''squats''))"
proof -
  let ?d = "\<lparr>url = ''https://img.example/squats.png'', timestamp = 1000,
               version = Some ''v1''\<rparr>"
  have h1: "localStorage sample_browser (CACHE_PREFIX @ ''lunges'')
              = Some ''{url: https://img.exam''"
    by (simp add: sample_browser_def CACHE_PREFIX_def)
  have h2: "parse_table json_table ''{url: https://img.exam'' = None"
    by (simp add: parse_table_def json_table_def
        json_push_ups_def json_pull_ups_def json_squats_def json_plank_def)
  have g1: "window_defined sample_browser" by (simp add: sample_browser_def)
  have g2: "localStorage sample_browser (CACHE_PREFIX @ ''squats'') = Some json_squats"
    by (simp add: sample_browser_def CACHE_PREFIX_def)
  have g3: "json_squats \<noteq> []" by (simp add: json_squats_def)
  have g4: "parse_table json_table json_squats = Some ?d"
    by (simp add: parse_table_def json_table_def
        json_push_ups_def json_pull_ups_def json_squats_def)
  have g5: "Some ''v1'' \<noteq> Some CACHE_VERSION" by (simp add: CACHE_VERSION_def)
  note t = unparseable_entry_stays [where JSON_parse = "parse_table json_table"
      and now = 5000 and now' = 6000 and bw = sample_browser and namew = "''squats''"
      and cachedw = json_squats and dataw = ?d and tw = 5000, OF h1 h2]
  from t have r1: "getCachedImage (parse_table json_table) sample_browser 5000 ''lunges''
       = (None, sample_browser)" by blast
  from t have r2: "getCachedImage (parse_table json_table)
         (snd (getCachedImage (parse_table json_table) sample_browser 5000 ''lunges''))
         6000 ''lunges'' = (None, sample_browser)" by blast
  from t g1 g2 g3 g4 g5
  have r3: "getCachedImage (parse_table json_table) sample_browser 5000 ''squats''
       = (None, removeItem sample_browser (CACHE_PREFIX @ ''squats''))" by simp
  show ?thesis by (intro conjI) (rule h1 h2 r1 r2 g1 g2 g3 g4 g5 r3)+
qed

text \<open>
  The claim as it is written fails: the text \<^verbatim>\<open>{}\<close> parses as JSON, though not into
  the shape of a cache entry, and a read removes it from the store.
\<close>

theorem wrong_shape_entry_is_evicted:
  "localStorage sample_browser (CACHE_PREFIX @ ''burpees'') = Some ''{}''
   \<and> parse_table json_table ''{}'' = Some \<lparr>url = [], timestamp = 0, version = None\<rparr>
   \<and> getCachedImage (parse_table json_table) sample_browser 5000 ''burpees''
       = (None, removeItem sample_browser (CACHE_PREFIX @ ''burpees''))
   \<and> localStorage
         (snd (getCachedImage (parse_table json_table) sample_browser 5000 ''burpees''))
         (CACHE_PREFIX @ ''burpees'') = None"
  by (simp add: getCachedImage_def removeItem_def sample_browser_def parse_table_def
      json_table_def json_push_ups_def json_pull_ups_def json_squats_def json_plank_def
      CACHE_PREFIX_def CACHE_VERSION_def)

end
